theory Spec2Isabelle
  imports Main "HOL-Library.Char_ord" "HOL-Library.List_Lexorder"
begin

section \<open>The lexical database as the script sees it\<close>

text \<open>
  The script \<^verbatim>\<open>scripts/generate_wordnet_vocab.py\<close> reads three things of a synset:
  \<^verbatim>\<open>offset()\<close>, \<^verbatim>\<open>lemmas()\<close> (of which it takes each lemma's \<^verbatim>\<open>name()\<close>) and
  \<^verbatim>\<open>hypernyms()\<close>, and once the list \<^verbatim>\<open>wn.all_synsets(pos=wn.NOUN)\<close>. A database is a
  record of these four over a type \<open>'n\<close> of synset objects. The database is a loaded,
  in-memory graph, so the functions below take \<open>'n\<close> in the class \<open>finite\<close>. Two synset
  objects may carry the same offset and the same lemma names; nothing in the script
  excludes it.

  Python's \<^verbatim>\<open>str\<close> is modelled by \<open>string\<close>, the list of the bytes of its UTF-8
  encoding; the order of \<open>HOL-Library.List_Lexorder\<close> over \<open>HOL-Library.Char_ord\<close>
  compares byte by byte, a proper prefix being smaller, as Python compares code point by
  code point (UTF-8 keeps the order of code points).
\<close>

datatype error = IndexError | OSError

record 'n wordnet =
  offset :: "'n \<Rightarrow> int"
  lemma_names :: "'n \<Rightarrow> string list"
  hypernyms :: "'n \<Rightarrow> 'n list"
  all_synsets :: "'n list"

section \<open>The ancestor chain\<close>

text \<open>
  \<^verbatim>\<open>get_hypernym_chain\<close>, lines 14 to 29. The loop \<^verbatim>\<open>while True\<close> is the function
  \<open>walk\<close> over the loop's variables \<^verbatim>\<open>current\<close>, \<^verbatim>\<open>seen\<close> and \<^verbatim>\<open>chain\<close>; both
  \<^verbatim>\<open>break\<close>s leave it with the chain, and \<^verbatim>\<open>parent.lemmas()[0]\<close> raises
  \<^verbatim>\<open>IndexError\<close> on an empty list.
\<close>

function walk :: "('n::finite) wordnet \<Rightarrow> 'n \<Rightarrow> int set \<Rightarrow> string list \<Rightarrow> error + string list" where
  "walk db current seen chain =
     (case hypernyms db current of
        [] \<Rightarrow> Inr chain
      | parent # _ \<Rightarrow>
          if offset db parent \<in> seen then Inr chain
          else (case lemma_names db parent of
                  [] \<Rightarrow> Inl IndexError
                | name # _ \<Rightarrow>
                    walk db parent (insert (offset db parent) seen) (chain @ [name])))"
  by pat_completeness auto
termination
proof (relation "measure (\<lambda>(db, current, seen, chain). card (range (offset db) - seen))")
  show "wf (measure (\<lambda>(db, current, seen, chain). card (range (offset db) - seen)))"
    by simp
next
  fix db :: "('n::finite) wordnet" and current :: 'n and seen :: "int set"
    and chain :: "string list" and parent :: 'n and name :: string
  assume "offset db parent \<notin> seen"
  then have "range (offset db) - insert (offset db parent) seen \<subset> range (offset db) - seen"
    by auto
  moreover have "finite (range (offset db) - seen)"
    by simp
  ultimately have "card (range (offset db) - insert (offset db parent) seen)
      < card (range (offset db) - seen)"
    by (simp add: psubset_card_mono)
  then show "((db, parent, insert (offset db parent) seen, chain @ [name]),
      (db, current, seen, chain))
    \<in> measure (\<lambda>(db, current, seen, chain). card (range (offset db) - seen))"
    by simp
qed

declare walk.simps [simp del]

definition get_hypernym_chain :: "('n::finite) wordnet \<Rightarrow> 'n \<Rightarrow> error + string list" where
  "get_hypernym_chain db synset = walk db synset {} []"


text \<open>
  The synsets whose offsets the loop adds to \<^verbatim>\<open>seen\<close>, in order: the same loop with
  the lemma lookup left out. It is not in the script; the theorems use it to speak about
  the ancestors behind the names of a chain.
\<close>

function visited :: "('n::finite) wordnet \<Rightarrow> 'n \<Rightarrow> int set \<Rightarrow> 'n list" where
  "visited db current seen =
     (case hypernyms db current of
        [] \<Rightarrow> []
      | parent # _ \<Rightarrow>
          if offset db parent \<in> seen then []
          else parent # visited db parent (insert (offset db parent) seen))"
  by pat_completeness auto
termination
proof (relation "measure (\<lambda>(db, current, seen). card (range (offset db) - seen))")
  show "wf (measure (\<lambda>(db, current, seen). card (range (offset db) - seen)))"
    by simp
next
  fix db :: "('n::finite) wordnet" and current :: 'n and seen :: "int set" and parent :: 'n
  assume "offset db parent \<notin> seen"
  then have "range (offset db) - insert (offset db parent) seen \<subset> range (offset db) - seen"
    by auto
  moreover have "finite (range (offset db) - seen)"
    by simp
  ultimately have "card (range (offset db) - insert (offset db parent) seen)
      < card (range (offset db) - seen)"
    by (simp add: psubset_card_mono)
  then show "((db, parent, insert (offset db parent) seen), (db, current, seen))
    \<in> measure (\<lambda>(db, current, seen). card (range (offset db) - seen))"
    by simp
qed

declare visited.simps [simp del]

definition canonical :: "'n wordnet \<Rightarrow> 'n \<Rightarrow> string" where
  \<comment> \<open>the first-listed lemma name, for a synset that has one\<close>
  "canonical db n = hd (lemma_names db n)"

section \<open>Rendering\<close>

definition tab :: char where
  "tab = CHR 0x09"

definition newline :: char where
  "newline = CHR 0x0A"

definition digit_char :: "nat \<Rightarrow> char" where
  "digit_char d = char_of (48 + d)"

text \<open>Python's \<^verbatim>\<open>str(n)\<close> for \<open>n \<ge> 0\<close>, as \<^verbatim>\<open>{len(lines)}\<close> renders a length.\<close>

fun decimal :: "nat \<Rightarrow> string" where
  "decimal n = (if n < 10 then [digit_char n] else decimal (n div 10) @ [digit_char (n mod 10)])"

declare decimal.simps [simp del]

text \<open>
  The format \<^verbatim>\<open>08d\<close>: the sign, if any, then zeros up to a width of 8, then the digits.
  The width is a minimum; nothing is cut.
\<close>

definition format_08d :: "int \<Rightarrow> string" where
  "format_08d i =
     (if i < 0
      then CHR ''-'' # replicate (7 - length (decimal (nat (- i)))) CHR ''0'' @ decimal (nat (- i))
      else replicate (8 - length (decimal (nat i))) CHR ''0'' @ decimal (nat i))"

text \<open>\<^verbatim>\<open>sep.join(xs)\<close>\<close>

fun join :: "string \<Rightarrow> string list \<Rightarrow> string" where
  "join sep [] = []"
| "join sep [x] = x"
| "join sep (x # y # ys) = x @ sep @ join sep (y # ys)"

section \<open>The vocabulary builder\<close>

text \<open>
  The loop of \<^verbatim>\<open>main\<close>, lines 38 to 54, over the synsets still to come, with the
  loop's variables \<^verbatim>\<open>lines\<close> and \<^verbatim>\<open>seen_names\<close>. \<^verbatim>\<open>synset.lemmas()[0]\<close> is read
  before the test on \<^verbatim>\<open>seen_names\<close> and raises \<^verbatim>\<open>IndexError\<close> on an empty list.
\<close>

fun main_loop ::
  "('n::finite) wordnet \<Rightarrow> 'n list \<Rightarrow> string list \<Rightarrow> string set \<Rightarrow> error + string list" where
  "main_loop db [] lines seen_names = Inr lines"
| "main_loop db (synset # rest) lines seen_names =
     (case lemma_names db synset of
        [] \<Rightarrow> Inl IndexError
      | name # _ \<Rightarrow>
          if name \<in> seen_names then main_loop db rest lines seen_names
          else (case get_hypernym_chain db synset of
                  Inl e \<Rightarrow> Inl e
                | Inr hypernym_chain \<Rightarrow>
                    let synset_id = format_08d (offset db synset);
                        chain_str = (if hypernym_chain \<noteq> [] then join ''|'' hypernym_chain else [])
                    in main_loop db rest
                         (lines @ [name @ [tab] @ synset_id @ [tab] @ chain_str])
                         (insert name seen_names)))"

text \<open>
  \<^verbatim>\<open>lines.sort()\<close>, line 56. Python's sort returns the ascending arrangement of the list;
  for strings, where elements that compare equal are the same string, this is the one
  sorted permutation, which \<open>sort\<close> returns too.
\<close>

definition sorted_lines :: "('n::finite) wordnet \<Rightarrow> error + string list" where
  "sorted_lines db =
     (case main_loop db (all_synsets db) [] {} of
        Inl e \<Rightarrow> Inl e
      | Inr lines \<Rightarrow> Inr (sort lines))"

section \<open>The serializer\<close>

text \<open>
  What \<^verbatim>\<open>main\<close> touches outside the database: the files by path, and the diagnostic
  stream. Two ways for the device to fail are part of the state: the paths that
  \<^verbatim>\<open>open(path, "w")\<close> refuses, and the number of bytes the device still takes, after
  which a write raises. \<^verbatim>\<open>open(path, "w")\<close> empties an existing file when it opens it;
  leaving the \<^verbatim>\<open>with\<close> block, by its end or by an exception, keeps what was written.
\<close>

record world =
  files :: "string \<rightharpoonup> string"
  refused :: "string set"
  room :: nat
  stderr :: "string list"

definition open_w :: "string \<Rightarrow> world \<Rightarrow> error + world" where
  "open_w path w =
     (if path \<in> refused w then Inl OSError
      else Inr (w\<lparr>files := (files w)(path \<mapsto> [])\<rparr>))"

definition append_file :: "string \<Rightarrow> string \<Rightarrow> world \<Rightarrow> world" where
  "append_file path s w =
     w\<lparr>files := (files w)(path \<mapsto> (case files w path of None \<Rightarrow> s | Some old \<Rightarrow> old @ s)),
       room := room w - length s\<rparr>"

definition f_write :: "string \<Rightarrow> string \<Rightarrow> world \<Rightarrow> error option \<times> world" where
  "f_write path s w =
     (if length s \<le> room w then (None, append_file path s w)
      else (Some OSError, append_file path (take (room w) s) w))"

fun write_all :: "string \<Rightarrow> string list \<Rightarrow> world \<Rightarrow> error option \<times> world" where
  "write_all path [] w = (None, w)"
| "write_all path (s # ss) w =
     (case f_write path s w of
        (Some e, w') \<Rightarrow> (Some e, w')
      | (None, w') \<Rightarrow> write_all path ss w')"

definition print_stderr :: "string \<Rightarrow> world \<Rightarrow> world" where
  "print_stderr s w = w\<lparr>stderr := stderr w @ [s]\<rparr>"

definition emdash :: string where
  \<comment> \<open>U+2014 in UTF-8\<close>
  "emdash = [CHR 0xE2, CHR 0x80, CHR 0x94]"

definition header :: "nat \<Rightarrow> string list" where
  "header n =
     [''# WordNet nouns vocabulary for Photon'',
      ''# Format: term<TAB>synset_id<TAB>hypernym_chain (pipe-separated)'',
      ''# Generated from WordNet 3.0 '' @ emdash @ '' '' @ decimal n @ '' terms'']"

definition output_path :: "string list \<Rightarrow> string" where
  "output_path argv =
     (if length argv > 1 then argv ! 1 else ''data/vocabulary/wordnet_nouns.txt'')"

text \<open>
  \<^verbatim>\<open>main\<close>, lines 32 to 65. The result is the exception the run ends with, if any, and
  the world it leaves. The three writes of the header and the one write per line are the
  list given to \<open>write_all\<close>.
\<close>

definition main :: "string list \<Rightarrow> ('n::finite) wordnet \<Rightarrow> world \<Rightarrow> error option \<times> world" where
  "main argv db w =
     (let w1 = print_stderr
                 (''Found '' @ decimal (length (all_synsets db)) @ '' noun synsets in WordNet'') w
      in case sorted_lines db of
           Inl e \<Rightarrow> (Some e, w1)
         | Inr lines \<Rightarrow>
             (case open_w (output_path argv) w1 of
                Inl e \<Rightarrow> (Some e, w1)
              | Inr w2 \<Rightarrow>
                  (case write_all (output_path argv)
                          (map (\<lambda>l. l @ [newline]) (header (length lines) @ lines)) w2 of
                     (Some e, w3) \<Rightarrow> (Some e, w3)
                   | (None, w3) \<Rightarrow>
                       (None, print_stderr
                          (''Wrote '' @ decimal (length lines) @ '' terms to '' @ output_path argv)
                          w3))))"

section \<open>Reading the output file\<close>

text \<open>
  The lines of a text, each ended by a newline (a last line without one counts too), the
  first tab-delimited column of a line, and the number a decimal string stands for.
\<close>

fun lines_of :: "string \<Rightarrow> string list" where
  "lines_of [] = []"
| "lines_of (c # cs) =
     (if c = newline then [] # lines_of cs
      else (case lines_of cs of [] \<Rightarrow> [[c]] | l # ls \<Rightarrow> (c # l) # ls))"

definition term_field :: "string \<Rightarrow> string" where
  "term_field line = takeWhile (\<lambda>c. c \<noteq> tab) line"

definition data_lines :: "string \<Rightarrow> string list" where
  "data_lines text = drop 3 (lines_of text)"

definition digit_value :: "char \<Rightarrow> nat" where
  "digit_value c = of_char c - 48"

definition decimal_value :: "string \<Rightarrow> nat" where
  "decimal_value s = foldl (\<lambda>v c. 10 * v + digit_value c) 0 s"

definition is_digit :: "char \<Rightarrow> bool" where
  "is_digit c \<longleftrightarrow> CHR ''0'' \<le> c \<and> c \<le> CHR ''9''"

section \<open>Example databases\<close>

text \<open>
  Three synsets, and small databases over them: the chain dog, canine, mammal; the
  same with one name for two ancestors; the same closed into a cycle; the same with an
  ancestor that has no lemma; the same with a synset that is its own hypernym.
\<close>

datatype sense = Dog | Canine | Mammal

instantiation sense :: finite
begin
instance
proof
  have "(UNIV :: sense set) \<subseteq> {Dog, Canine, Mammal}"
    using sense.exhaust by auto
  then show "finite (UNIV :: sense set)"
    by (rule finite_subset) simp
qed
end

definition kennel :: "sense wordnet" where
  "kennel =
     \<lparr>offset = (\<lambda>n. case n of Dog \<Rightarrow> 1 | Canine \<Rightarrow> 2 | Mammal \<Rightarrow> 3),
      lemma_names = (\<lambda>n. case n of Dog \<Rightarrow> [''dog'', ''domestic_dog'']
                          | Canine \<Rightarrow> [''canine''] | Mammal \<Rightarrow> [''mammal'']),
      hypernyms = (\<lambda>n. case n of Dog \<Rightarrow> [Canine, Mammal] | Canine \<Rightarrow> [Mammal] | Mammal \<Rightarrow> []),
      all_synsets = [Dog, Canine, Mammal]\<rparr>"

definition homographs :: "sense wordnet" where
  "homographs = kennel\<lparr>lemma_names := (\<lambda>n. case n of Dog \<Rightarrow> [''dog''] | _ \<Rightarrow> [''animal''])\<rparr>"

definition ring :: "sense wordnet" where
  "ring = kennel\<lparr>hypernyms := (\<lambda>n. case n of Dog \<Rightarrow> [Canine] | Canine \<Rightarrow> [Mammal] | Mammal \<Rightarrow> [Dog])\<rparr>"

definition nameless :: "sense wordnet" where
  "nameless = kennel\<lparr>lemma_names := (\<lambda>n. case n of Dog \<Rightarrow> [''dog''] | Canine \<Rightarrow> [''canine''] | Mammal \<Rightarrow> [])\<rparr>"

definition narcissus :: "sense wordnet" where
  "narcissus = kennel\<lparr>hypernyms := (\<lambda>n. case n of Dog \<Rightarrow> [Canine] | Canine \<Rightarrow> [Mammal] | Mammal \<Rightarrow> [Mammal])\<rparr>"

section \<open>The ancestor chain: what the walk computes\<close>

text \<open>
  The walk returns the first-listed lemma names of the visited synsets, or raises at a
  visited synset without lemmas.
\<close>

lemma walk_visited:
  "walk db current seen chain =
     (if \<forall>p \<in> set (visited db current seen). lemma_names db p \<noteq> []
      then Inr (chain @ map (canonical db) (visited db current seen))
      else Inl IndexError)"
proof (induction db current seen chain rule: walk.induct)
  case (1 db current seen chain)
  show ?case
  proof (cases "hypernyms db current")
    case Nil
    then show ?thesis
      by (simp add: walk.simps [of db current] visited.simps [of db current])
  next
    case (Cons parent ps)
    show ?thesis
    proof (cases "offset db parent \<in> seen")
      case True
      with Cons show ?thesis
        by (simp add: walk.simps [of db current] visited.simps [of db current])
    next
      case False
      show ?thesis
      proof (cases "lemma_names db parent")
        case Nil
        with Cons False show ?thesis
          by (simp add: walk.simps [of db current] visited.simps [of db current])
      next
        case (Cons name ns)
        from "1.IH" [OF \<open>hypernyms db current = parent # ps\<close> False Cons]
        show ?thesis
          using \<open>hypernyms db current = parent # ps\<close> False Cons
          by (simp add: walk.simps [of db current] visited.simps [of db current] canonical_def)
      qed
    qed
  qed
qed

lemma visited_offsets:
  "distinct (map (offset db) (visited db current seen))
   \<and> offset db ` set (visited db current seen) \<inter> seen = {}"
proof (induction db current seen rule: visited.induct)
  case (1 db current seen)
  show ?case
  proof (cases "hypernyms db current")
    case Nil
    then show ?thesis by (simp add: visited.simps [of db current])
  next
    case (Cons parent ps)
    show ?thesis
    proof (cases "offset db parent \<in> seen")
      case True
      with Cons show ?thesis by (simp add: visited.simps [of db current])
    next
      case False
      from "1.IH" [OF Cons False] Cons False show ?thesis
        by (auto simp add: visited.simps [of db current])
    qed
  qed
qed

lemma visited_length:
  "length (visited db current seen) \<le> card (range (offset db) - seen)"
proof -
  let ?vs = "visited db current seen"
  have "length ?vs = card (offset db ` set ?vs)"
    using visited_offsets [of db current seen]
    by (metis distinct_card length_map set_map)
  also have "\<dots> \<le> card (range (offset db) - seen)"
    using visited_offsets [of db current seen]
    by (intro card_mono) auto
  finally show ?thesis .
qed

lemma visited_split:
  "visited db current seen = xs @ p # qs \<Longrightarrow>
   qs = visited db p (seen \<union> offset db ` set xs \<union> {offset db p})"
proof (induction db current seen arbitrary: xs rule: visited.induct)
  case (1 db current seen)
  show ?case
  proof (cases "hypernyms db current")
    case Nil
    with "1.prems" show ?thesis by (simp add: visited.simps [of db current])
  next
    case (Cons parent ps)
    show ?thesis
    proof (cases "offset db parent \<in> seen")
      case True
      with Cons "1.prems" show ?thesis by (simp add: visited.simps [of db current])
    next
      case False
      with Cons "1.prems"
      have eq: "parent # visited db parent (insert (offset db parent) seen) = xs @ p # qs"
        by (simp add: visited.simps [of db current])
      show ?thesis
      proof (cases xs)
        case Nil
        with eq show ?thesis by auto
      next
        case (Cons x xs')
        with eq have "x = parent"
          and "visited db parent (insert (offset db parent) seen) = xs' @ p # qs"
          by auto
        from "1.IH" [OF \<open>hypernyms db current = parent # ps\<close> False this(2)]
        show ?thesis
          using Cons \<open>x = parent\<close> by (simp add: Un_commute insert_commute Un_left_commute)
      qed
    qed
  qed
qed

text \<open>
  C1, as amended. The chain lists the canonical names of the visited ancestors, and these
  ancestors have pairwise distinct offsets: the guard is on offsets, not on names. Where
  visited ancestors with one name have one offset, no name occurs twice.
\<close>

theorem chain_identifiers_distinct:
  assumes "get_hypernym_chain db s = Inr chain"
  shows "chain = map (canonical db) (visited db s {})
    \<and> distinct (map (offset db) (visited db s {}))
    \<and> ((\<forall>p \<in> set (visited db s {}). \<forall>q \<in> set (visited db s {}).
           canonical db p = canonical db q \<longrightarrow> offset db p = offset db q)
         \<longrightarrow> distinct chain)"
proof (intro conjI impI)
  let ?vs = "visited db s {}"
  from assms show chain: "chain = map (canonical db) ?vs"
    by (simp add: get_hypernym_chain_def walk_visited split: if_splits)
  show offs: "distinct (map (offset db) ?vs)"
    using visited_offsets [of db s "{}"] by simp
  assume same: "\<forall>p \<in> set ?vs. \<forall>q \<in> set ?vs.
      canonical db p = canonical db q \<longrightarrow> offset db p = offset db q"
  from offs have dist: "distinct ?vs" and inj: "inj_on (offset db) (set ?vs)"
    by (simp_all add: distinct_map)
  have "inj_on (canonical db) (set ?vs)"
  proof (rule inj_onI)
    fix p q
    assume p: "p \<in> set ?vs" and q: "q \<in> set ?vs" and "canonical db p = canonical db q"
    with same have "offset db p = offset db q"
      by blast
    from inj_onD [OF inj this p q] show "p = q" .
  qed
  with dist chain show "distinct chain"
    by (simp add: distinct_map)
qed

theorem chain_identifiers_distinct_witness:
  "get_hypernym_chain ring Dog = Inr [''canine'', ''mammal'', ''dog'']
   \<and> visited ring Dog {} = [Canine, Mammal, Dog]
   \<and> distinct (map (offset ring) [Canine, Mammal, Dog])
   \<and> distinct [''canine'', ''mammal'', ''dog'']"
proof -
  have run: "get_hypernym_chain ring Dog = Inr [''canine'', ''mammal'', ''dog'']"
    by (simp add: get_hypernym_chain_def walk.simps kennel_def ring_def)
  have vs: "visited ring Dog {} = [Canine, Mammal, Dog]"
    by (simp add: visited.simps kennel_def ring_def)
  from chain_identifiers_distinct [OF run] run vs show ?thesis
    by (simp add: canonical_def kennel_def ring_def)
qed

text \<open>
  Two ancestors with different offsets and one canonical name: the name occurs twice in
  the chain of the first synset.
\<close>

theorem chain_repeats_term:
  "get_hypernym_chain homographs Dog = Inr [''animal'', ''animal'']
   \<and> \<not> distinct [''animal'', ''animal'']"
  by (simp add: get_hypernym_chain_def walk.simps kennel_def homographs_def)

text \<open>
  C4. One turn of the loop either leaves it with the chain as it is (no hypernyms, or the
  first hypernym's offset is in \<^verbatim>\<open>seen\<close>) or goes on with an offset added to
  \<^verbatim>\<open>seen\<close> that was not in it and one name appended. The walk is total (the
  definition of \<open>walk\<close> comes with its termination proof, over any database, cyclic or
  not); it ends with a chain or with \<^verbatim>\<open>IndexError\<close>, and a chain has at most as many
  names as the database has offsets outside \<^verbatim>\<open>seen\<close>. Where every synset has a
  lemma, it ends with a chain.
\<close>

theorem walk_stops:
  fixes db :: "('n::finite) wordnet"
  shows "(hypernyms db current = [] \<longrightarrow> walk db current seen chain = Inr chain)
    \<and> (\<forall>parent rest. hypernyms db current = parent # rest \<and> offset db parent \<in> seen
          \<longrightarrow> walk db current seen chain = Inr chain)
    \<and> (\<forall>parent rest name names.
          hypernyms db current = parent # rest \<and> offset db parent \<notin> seen
          \<and> lemma_names db parent = name # names
          \<longrightarrow> walk db current seen chain
              = walk db parent (insert (offset db parent) seen) (chain @ [name]))
    \<and> (walk db current seen chain = Inl IndexError
        \<or> (\<exists>names. walk db current seen chain = Inr (chain @ names)
              \<and> length names \<le> card (range (offset db) - seen)))
    \<and> ((\<forall>n. lemma_names db n \<noteq> [])
        \<longrightarrow> (\<exists>names. get_hypernym_chain db current = Inr names
              \<and> length names \<le> card (range (offset db))))"
proof (intro conjI allI impI)
  assume "hypernyms db current = []"
  then show "walk db current seen chain = Inr chain"
    by (simp add: walk.simps [of db current])
next
  fix parent rest
  assume "hypernyms db current = parent # rest \<and> offset db parent \<in> seen"
  then show "walk db current seen chain = Inr chain"
    by (simp add: walk.simps [of db current])
next
  fix parent rest name names
  assume "hypernyms db current = parent # rest \<and> offset db parent \<notin> seen
    \<and> lemma_names db parent = name # names"
  then show "walk db current seen chain
      = walk db parent (insert (offset db parent) seen) (chain @ [name])"
    by (simp add: walk.simps [of db current])
next
  show "walk db current seen chain = Inl IndexError
    \<or> (\<exists>names. walk db current seen chain = Inr (chain @ names)
          \<and> length names \<le> card (range (offset db) - seen))"
    using visited_length [of db current seen]
    by (simp add: walk_visited)
next
  assume "\<forall>n. lemma_names db n \<noteq> []"
  then have "get_hypernym_chain db current = Inr (map (canonical db) (visited db current {}))"
    by (simp add: get_hypernym_chain_def walk_visited)
  moreover have "length (map (canonical db) (visited db current {})) \<le> card (range (offset db))"
    using visited_length [of db current "{}"] by simp
  ultimately show "\<exists>names. get_hypernym_chain db current = Inr names
      \<and> length names \<le> card (range (offset db))"
    by blast
qed

theorem walk_stops_witness:
  "get_hypernym_chain ring Dog = Inr [''canine'', ''mammal'', ''dog'']
   \<and> hypernyms ring Dog = [Canine] \<and> hypernyms ring Canine = [Mammal]
   \<and> hypernyms ring Mammal = [Dog]
   \<and> (3::nat) \<le> card (range (offset ring))"
proof -
  have run: "get_hypernym_chain ring Dog = Inr [''canine'', ''mammal'', ''dog'']"
    by (simp add: get_hypernym_chain_def walk.simps kennel_def ring_def)
  have names: "\<forall>n. lemma_names ring n \<noteq> []"
    by (simp add: kennel_def ring_def split: sense.split)
  from walk_stops [of ring Dog "{}" "[]"] names
  obtain ns where "get_hypernym_chain ring Dog = Inr ns"
    and "length ns \<le> card (range (offset ring))"
    by blast
  with run have "(3::nat) \<le> card (range (offset ring))"
    by simp
  with run show ?thesis
    by (simp add: kennel_def ring_def)
qed

text \<open>
  C9. The walk starts with \<^verbatim>\<open>seen\<close> empty, so the offset of the starting synset is
  not in it before the walk comes to that synset as a parent. When it does (the starting
  synset is among the visited ones), the starting synset is visited once, as the last
  one, and its canonical name ends the chain. A synset that is its own first hypernym has
  its own name as its chain.
\<close>

theorem returns_to_start_once:
  fixes db :: "('n::finite) wordnet"
  shows "(s \<in> set (visited db s {}) \<longrightarrow>
           (\<exists>ps. visited db s {} = ps @ [s] \<and> s \<notin> set ps
              \<and> ((\<forall>p \<in> set (ps @ [s]). lemma_names db p \<noteq> [])
                  \<longrightarrow> get_hypernym_chain db s = Inr (map (canonical db) ps @ [canonical db s]))))
    \<and> (\<forall>rest name names. hypernyms db s = s # rest \<and> lemma_names db s = name # names
          \<longrightarrow> get_hypernym_chain db s = Inr [name])"
proof (intro conjI allI impI)
  let ?vs = "visited db s {}"
  assume again: "s \<in> set ?vs"
  then obtain ps qs where split: "?vs = ps @ s # qs" and first: "s \<notin> set ps"
    by (meson split_list_first)
  from again obtain p1 rest where hyp: "hypernyms db s = p1 # rest"
    by (cases "hypernyms db s") (simp_all add: visited.simps [of db s])
  then have "?vs = p1 # visited db p1 {offset db p1}"
    by (simp add: visited.simps [of db s])
  with split have "p1 \<in> set (ps @ [s])"
    by (cases ps) simp_all
  then have seen: "offset db p1 \<in> {} \<union> offset db ` set ps \<union> {offset db s}"
    by auto
  from visited_split [OF split]
  have "qs = visited db s ({} \<union> offset db ` set ps \<union> {offset db s})" .
  also from hyp seen have "\<dots> = []"
    by (simp add: visited.simps [of db s])
  finally have vs: "?vs = ps @ [s]"
    using split by simp
  have "get_hypernym_chain db s = Inr (map (canonical db) ps @ [canonical db s])"
    if "\<forall>p \<in> set (ps @ [s]). lemma_names db p \<noteq> []"
    using that vs by (simp add: get_hypernym_chain_def walk_visited)
  with vs first
  show "\<exists>ps. ?vs = ps @ [s] \<and> s \<notin> set ps
      \<and> ((\<forall>p \<in> set (ps @ [s]). lemma_names db p \<noteq> [])
          \<longrightarrow> get_hypernym_chain db s = Inr (map (canonical db) ps @ [canonical db s]))"
    by blast
next
  fix rest name names
  assume "hypernyms db s = s # rest \<and> lemma_names db s = name # names"
  then show "get_hypernym_chain db s = Inr [name]"
    by (simp add: get_hypernym_chain_def walk.simps [of db s])
qed

theorem returns_to_start_once_witness:
  "visited ring Dog {} = [Canine, Mammal] @ [Dog]
   \<and> get_hypernym_chain ring Dog = Inr [''canine'', ''mammal'', ''dog'']
   \<and> get_hypernym_chain narcissus Mammal = Inr [''mammal'']"
proof -
  have vs: "visited ring Dog {} = [Canine, Mammal, Dog]"
    by (simp add: visited.simps kennel_def ring_def)
  then have again: "Dog \<in> set (visited ring Dog {})"
    by simp
  from returns_to_start_once [of Dog ring] again
  obtain ps where ps: "visited ring Dog {} = ps @ [Dog]"
    and run: "(\<forall>p \<in> set (ps @ [Dog]). lemma_names ring p \<noteq> [])
      \<longrightarrow> get_hypernym_chain ring Dog = Inr (map (canonical ring) ps @ [canonical ring Dog])"
    by blast
  from ps vs have "ps = [Canine, Mammal]"
    by simp
  with run have "get_hypernym_chain ring Dog = Inr [''canine'', ''mammal'', ''dog'']"
    by (simp add: canonical_def kennel_def ring_def)
  moreover have "hypernyms narcissus Mammal = Mammal # []
      \<and> lemma_names narcissus Mammal = ''mammal'' # []"
    by (simp add: kennel_def narcissus_def)
  with returns_to_start_once [of Mammal narcissus]
  have "get_hypernym_chain narcissus Mammal = Inr [''mammal'']"
    by blast
  ultimately show ?thesis
    using vs by simp
qed

end
